theory Spec2Isabelle
  imports Main
begin

section \<open>JavaScript values and plain objects\<close>

text \<open>
  Field values are opaque to the hook (\<^verbatim>\<open>unknown\<close> in the TypeScript types); the only
  operations the hook applies to them are the strict inequality \<^verbatim>\<open>!==\<close> and, on what it
  reads from the dependency object, the truthiness test of \<^verbatim>\<open>if\<close>.  Primitives compare by
  value, objects by reference: \<open>Ref\<close> carries the identity of an object of the program,
  \<open>Builtin\<close> stands for the function object that \<^verbatim>\<open>Object.prototype\<close> holds under that
  name.  \<open>NaN\<close> is unequal to everything, itself included.  Numbers other than \<open>NaN\<close> are
  taken as integers: \<^verbatim>\<open>+0 === -0\<close> holds in JavaScript, so one zero is enough.
\<close>

datatype jsval =
  Undefined | Null | Bool bool | Num int | NaN | Str string | Ref nat | Builtin string

definition strict_neq :: "jsval \<Rightarrow> jsval \<Rightarrow> bool" where
  "strict_neq a b = (a = NaN \<or> b = NaN \<or> a \<noteq> b)"

fun truthy :: "jsval \<Rightarrow> bool" where
  "truthy Undefined = False"
| "truthy Null = False"
| "truthy (Bool b) = b"
| "truthy (Num n) = (n \<noteq> 0)"
| "truthy NaN = False"
| "truthy (Str s) = (s \<noteq> [])"
| "truthy (Ref a) = True"
| "truthy (Builtin name) = True"

text \<open>
  A plain object is the list of its own enumerable data properties in enumeration order;
  the first binding of a key is the property.  The state, the dependency object and the
  payloads are such objects, made by object literals, so their prototype is
  \<^verbatim>\<open>Object.prototype\<close>: reading a key that the object does not own yields the member of
  that name inherited from the prototype, and \<^verbatim>\<open>undefined\<close> when there is none.  The
  inherited members are not enumerable, and assigning to one of their names creates an
  own property, as for any other key.  The accessor \<^verbatim>\<open>__proto__\<close> reads as the
  prototype itself, an object.

  \<open>set_prop\<close> stores a property: it is what an object literal with a computed key does
  for every key, and what an assignment does on an extensible object for every key but
  a \<^verbatim>\<open>__proto__\<close> that the object does not own.  The assignment with its other cases, the
  setter of \<^verbatim>\<open>__proto__\<close> and the \<^verbatim>\<open>TypeError\<close> of a record that cannot take the write,
  is \<open>assign\<close> below.
\<close>

type_synonym jsobj = "(string \<times> jsval) list"

definition object_prototype :: "string list" where
  "object_prototype =
     [''constructor'', ''hasOwnProperty'', ''isPrototypeOf'', ''propertyIsEnumerable'',
      ''toLocaleString'', ''toString'', ''valueOf'', ''__defineGetter__'',
      ''__defineSetter__'', ''__lookupGetter__'', ''__lookupSetter__'', ''__proto__'']"

definition inherited :: "string \<Rightarrow> jsval" where
  "inherited k = (if k \<in> set object_prototype then Builtin k else Undefined)"

definition get_prop :: "jsobj \<Rightarrow> string \<Rightarrow> jsval" where
  "get_prop ob k = (case map_of ob k of None \<Rightarrow> inherited k | Some v \<Rightarrow> v)"

fun set_prop :: "jsobj \<Rightarrow> string \<Rightarrow> jsval \<Rightarrow> jsobj" where
  "set_prop [] k v = [(k, v)]"
| "set_prop ((k', v') # ob) k v =
     (if k' = k then (k, v) # ob else (k', v') # set_prop ob k v)"

definition keys_in :: "jsobj \<Rightarrow> string list" where
  "keys_in ob = map fst ob"

text \<open>
  A field is tracked when the dependency object owns its key with the value
  \<^verbatim>\<open>true\<close>.
\<close>

definition dep_flag :: "jsobj \<Rightarrow> string \<Rightarrow> bool" where
  "dep_flag sd k = (map_of sd k = Some (Bool True))"


section \<open>The hook with its own unmounted ref\<close>

text \<open>
  The cells of one hook instance.  \<open>rerender\<close> counts the calls of \<^verbatim>\<open>rerender({})\<close>,
  the signal to the host.
\<close>

record container =
  stateRef :: jsobj
  stateDependenciesRef :: jsobj
  unmounted :: bool
  rerender :: nat

text \<open>
  \<^verbatim>\<open>Object.keys(stateRef.current).reduce((prev, curr) => ({ ...prev, [curr]: false }), {})\<close>
\<close>

definition useStateWithDeps :: "jsobj \<Rightarrow> container" where
  "useStateWithDeps initialState =
     \<lparr> stateRef = initialState,
       stateDependenciesRef =
         foldl (\<lambda>prev curr. set_prop prev curr (Bool False)) [] (keys_in initialState),
       unmounted = False,
       rerender = 0 \<rparr>"

text \<open>
  The body of \<^verbatim>\<open>for (const k in payload)\<close>, over the keys still to visit, threading the
  mutated \<^verbatim>\<open>currentState\<close> and the local \<^verbatim>\<open>shouldRerender\<close>.  Every assignment
  stores here, as it does on the extensible record of an object literal; the loop with
  the assignments that do not store is \<open>for_in_strict\<close> below.
\<close>

fun for_in :: "jsobj \<Rightarrow> jsobj \<Rightarrow> string list \<Rightarrow> jsobj \<times> bool \<Rightarrow> jsobj \<times> bool" where
  "for_in payload sd [] (currentState, shouldRerender) = (currentState, shouldRerender)"
| "for_in payload sd (k # ks) (currentState, shouldRerender) =
     (if strict_neq (get_prop currentState k) (get_prop payload k)
      then for_in payload sd ks
             (set_prop currentState k (get_prop payload k),
              if truthy (get_prop sd k) then True else shouldRerender)
      else for_in payload sd ks (currentState, shouldRerender))"

definition setState :: "container \<Rightarrow> jsobj \<Rightarrow> container" where
  "setState c payload =
     (case for_in payload (stateDependenciesRef c) (keys_in payload) (stateRef c, False) of
        (currentState, shouldRerender) \<Rightarrow>
          (if shouldRerender \<and> \<not> unmounted c
           then c\<lparr> stateRef := currentState, rerender := Suc (rerender c) \<rparr>
           else c\<lparr> stateRef := currentState \<rparr>))"

text \<open>The cleanup of the mount effect: \<^verbatim>\<open>unmounted.current = true\<close>.\<close>

definition unmount :: "container \<Rightarrow> container" where
  "unmount c = c\<lparr> unmounted := True \<rparr>"

text \<open>
  The getters that \<^verbatim>\<open>useDataWithDepsTracking\<close> and \<^verbatim>\<open>useStarterPokemon\<close> return, one per
  field: \<^verbatim>\<open>stateDependencies.f = true; return stateRef.current.f\<close>.  The dependency
  object is extensible and owns the key of every field, so the assignment stores.
\<close>

definition getter :: "container \<Rightarrow> string \<Rightarrow> jsval \<times> container" where
  "getter c f =
     (let c' = c\<lparr> stateDependenciesRef := set_prop (stateDependenciesRef c) f (Bool True) \<rparr>
      in (get_prop (stateRef c') f, c'))"

text \<open>
  The hook is used from one thread: a history of a container is a list of calls, run in
  call order.
\<close>

datatype call = Get string | Set jsobj | Unmount

fun step :: "container \<Rightarrow> call \<Rightarrow> container" where
  "step c (Get f) = snd (getter c f)"
| "step c (Set payload) = setState c payload"
| "step c Unmount = unmount c"

fun run :: "container \<Rightarrow> call list \<Rightarrow> container" where
  "run c [] = c"
| "run c (x # xs) = run (step c x) xs"

text \<open>The getters exist for the fields of the initial state only.\<close>

fun reads_within :: "jsobj \<Rightarrow> call \<Rightarrow> bool" where
  "reads_within initialState (Get f) = (f \<in> set (keys_in initialState))"
| "reads_within initialState _ = True"

text \<open>
  \<^verbatim>\<open>Partial<State>\<close> types a payload by the fields of the state; a payload within it
  writes fields of the initial state only.
\<close>

fun writes_within :: "jsobj \<Rightarrow> call \<Rightarrow> bool" where
  "writes_within initialState (Set payload) =
     (set (keys_in payload) \<subseteq> set (keys_in initialState))"
| "writes_within initialState _ = True"

section \<open>The hook with an external unmounted ref\<close>

record container_ext =
  stateRef_ext :: jsobj
  stateDependenciesRef_ext :: jsobj
  rerender_ext :: nat

text \<open>
  \<^verbatim>\<open>for (const key in state) { deps[key] = false }\<close>, an assignment on a fresh object:
  for a key \<^verbatim>\<open>__proto__\<close> it runs the inherited setter, which ignores \<^verbatim>\<open>false\<close>.
\<close>

fun init_deps :: "string list \<Rightarrow> jsobj \<Rightarrow> jsobj" where
  "init_deps [] deps = deps"
| "init_deps (key # ks) deps =
     init_deps ks
       (if key = ''__proto__'' \<and> key \<notin> set (keys_in deps) then deps
        else set_prop deps key (Bool False))"

definition useStateWithDeps_ext :: "jsobj \<Rightarrow> container_ext" where
  "useStateWithDeps_ext state =
     \<lparr> stateRef_ext = state,
       stateDependenciesRef_ext = init_deps (keys_in state) [],
       rerender_ext = 0 \<rparr>"

fun for_in_ext :: "jsobj \<Rightarrow> jsobj \<Rightarrow> string list \<Rightarrow> jsobj \<times> bool \<Rightarrow> jsobj \<times> bool" where
  "for_in_ext payload sd [] (currentState, shouldRerender) = (currentState, shouldRerender)"
| "for_in_ext payload sd (k # ks) (currentState, shouldRerender) =
     (if strict_neq (get_prop currentState k) (get_prop payload k)
      then for_in_ext payload sd ks
             (set_prop currentState k (get_prop payload k),
              if truthy (get_prop sd k) then True else shouldRerender)
      else for_in_ext payload sd ks (currentState, shouldRerender))"

text \<open>\<open>unmountedRef\<close> is the value of \<^verbatim>\<open>unmountedRef.current\<close> when the call is made.\<close>

definition setState_ext :: "bool \<Rightarrow> container_ext \<Rightarrow> jsobj \<Rightarrow> container_ext" where
  "setState_ext unmountedRef c payload =
     (case for_in_ext payload (stateDependenciesRef_ext c) (keys_in payload)
             (stateRef_ext c, False) of
        (currentState, shouldRerender) \<Rightarrow>
          (if shouldRerender \<and> \<not> unmountedRef
           then c\<lparr> stateRef_ext := currentState, rerender_ext := Suc (rerender_ext c) \<rparr>
           else c\<lparr> stateRef_ext := currentState \<rparr>))"

section \<open>Assignment in full\<close>

text \<open>
  The hook is module code, so it runs in strict mode, where an assignment that cannot
  store throws \<^verbatim>\<open>TypeError\<close>.  What \<^verbatim>\<open>currentState[k] = payload[k]\<close> does depends on the
  state record the caller handed to the hook: whether it may take new properties
  (not after \<^verbatim>\<open>Object.preventExtensions\<close> or \<^verbatim>\<open>Object.seal\<close>), and whether its own
  properties may be written (not after \<^verbatim>\<open>Object.freeze\<close>).
\<close>

datatype integrity = Extensible | NonExtensible | Frozen

text \<open>
  \<open>PrototypeReplaced\<close>: the assignment went through the setter of \<^verbatim>\<open>__proto__\<close> with an
  object or \<^verbatim>\<open>null\<close> and replaced the prototype of the record (or threw on a cycle).
  What the record inherits from then on is not described here, and the loop is followed
  no further.
\<close>

datatype halt = TypeError | PrototypeReplaced

fun proto_value :: "jsval \<Rightarrow> bool" where
  "proto_value Null = True"
| "proto_value (Ref a) = True"
| "proto_value (Builtin name) = True"
| "proto_value _ = False"

definition assign :: "integrity \<Rightarrow> jsobj \<Rightarrow> string \<Rightarrow> jsval \<Rightarrow> halt + jsobj" where
  "assign g ob k v =
     (if k \<in> set (keys_in ob)
      then (if g = Frozen then Inl TypeError else Inr (set_prop ob k v))
      else if k = ''__proto__''
      then (if \<not> proto_value v \<or> v = inherited k then Inr ob
            else if g = Extensible then Inl PrototypeReplaced
            else Inl TypeError)
      else if g = Extensible then Inr (set_prop ob k v)
      else Inl TypeError)"

text \<open>
  The loop and the call with these assignments.  A throw leaves the loop at once: the
  writes made so far stay in the record, and \<^verbatim>\<open>rerender\<close> is not reached.
\<close>

fun for_in_strict ::
  "integrity \<Rightarrow> jsobj \<Rightarrow> jsobj \<Rightarrow> string list \<Rightarrow> jsobj \<times> bool
     \<Rightarrow> (halt \<times> jsobj) + (jsobj \<times> bool)" where
  "for_in_strict g payload sd [] (currentState, shouldRerender) =
     Inr (currentState, shouldRerender)"
| "for_in_strict g payload sd (k # ks) (currentState, shouldRerender) =
     (if strict_neq (get_prop currentState k) (get_prop payload k)
      then (case assign g currentState k (get_prop payload k) of
              Inl e \<Rightarrow> Inl (e, currentState)
            | Inr currentState' \<Rightarrow>
                for_in_strict g payload sd ks
                  (currentState', if truthy (get_prop sd k) then True else shouldRerender))
      else for_in_strict g payload sd ks (currentState, shouldRerender))"

definition setState_strict ::
  "integrity \<Rightarrow> container \<Rightarrow> jsobj \<Rightarrow> (halt \<times> container) + container" where
  "setState_strict g c payload =
     (case for_in_strict g payload (stateDependenciesRef c) (keys_in payload)
             (stateRef c, False) of
        Inl (e, currentState) \<Rightarrow> Inl (e, c\<lparr> stateRef := currentState \<rparr>)
      | Inr (currentState, shouldRerender) \<Rightarrow>
          Inr (if shouldRerender \<and> \<not> unmounted c
               then c\<lparr> stateRef := currentState, rerender := Suc (rerender c) \<rparr>
               else c\<lparr> stateRef := currentState \<rparr>))"

text \<open>What a call leaves behind, thrown or not, and whether it threw.\<close>

fun settled :: "(halt \<times> container) + container \<Rightarrow> container" where
  "settled (Inl (e, c)) = c"
| "settled (Inr c) = c"

fun thrown :: "(halt \<times> container) + container \<Rightarrow> halt option" where
  "thrown (Inl (e, c)) = Some e"
| "thrown (Inr c) = None"

section \<open>A sample container\<close>

text \<open>
  The state \<^verbatim>\<open>{ data: ["a"], length: 1 }\<close>, the array being the object \<open>Ref 0\<close>, after
  the consumer has read \<^verbatim>\<open>length\<close> and nothing else.
\<close>

definition demo_init :: jsobj where
  "demo_init = [(''data'', Ref 0), (''length'', Num 1)]"

definition demo_tracked :: container where
  "demo_tracked = step (useStateWithDeps demo_init) (Get ''length'')"

section \<open>Properties of objects\<close>

lemma map_of_set_prop: "map_of (set_prop ob k v) = (map_of ob)(k \<mapsto> v)"
  by (induction ob) auto

lemma keys_set_prop: "set (keys_in (set_prop ob k v)) = insert k (set (keys_in ob))"
  by (simp add: keys_in_def dom_map_of_conv_image_fst [symmetric] map_of_set_prop)

lemma get_prop_set_prop:
  "get_prop (set_prop ob k v) k' = (if k' = k then v else get_prop ob k')"
  by (simp add: get_prop_def map_of_set_prop)

lemma dep_flag_set_prop:
  "dep_flag (set_prop sd k v) k' = (if k' = k then v = Bool True else dep_flag sd k')"
  by (simp add: dep_flag_def map_of_set_prop)

lemma strict_neq_self: "strict_neq v v = (v = NaN)"
  by (simp add: strict_neq_def)


lemma keys_foldl_set_prop:
  "set (keys_in (foldl (\<lambda>prev curr. set_prop prev curr b) acc ks)) =
     set (keys_in acc) \<union> set ks"
  by (induction ks arbitrary: acc) (auto simp: keys_set_prop)





section \<open>The loop of setState\<close>

text \<open>
  The flag the loop leaves: it was set before, or some visited key reads truthy in the
  dependency object and its payload value compares different from the value the state
  held when the loop began.
\<close>

lemma for_in_flag:
  "snd (for_in p sd ks (cur, sr)) =
     (sr \<or> (\<exists>k\<in>set ks. truthy (get_prop sd k)
                \<and> strict_neq (get_prop cur k) (get_prop p k)))"
proof (induction ks arbitrary: cur sr)
  case Nil
  then show ?case by simp
next
  case (Cons k ks)
  then show ?case
    by (auto simp: get_prop_set_prop strict_neq_self)
qed

lemma for_in_get_prop:
  "get_prop (fst (for_in p sd ks (cur, sr))) k =
     (if k \<in> set ks then get_prop p k else get_prop cur k)"
  by (induction ks arbitrary: cur sr) (auto simp: get_prop_set_prop strict_neq_def)

lemma for_in_map_of:
  "map_of (fst (for_in p sd ks (cur, sr))) k =
     (if k \<in> set ks \<and> strict_neq (get_prop cur k) (get_prop p k)
      then Some (get_prop p k) else map_of cur k)"
proof (induction ks arbitrary: cur sr)
  case Nil
  then show ?case by simp
next
  case (Cons k0 ks)
  show ?case
  proof (cases "strict_neq (get_prop cur k0) (get_prop p k0)")
    case True
    then show ?thesis
      using Cons.IH [of "set_prop cur k0 (get_prop p k0)"]
      by (auto simp: get_prop_set_prop map_of_set_prop)
  next
    case False
    then show ?thesis
      using Cons.IH [of cur] by auto
  qed
qed

lemma for_in_keys:
  "set (keys_in (fst (for_in p sd ks (cur, sr)))) =
     set (keys_in cur) \<union> {k \<in> set ks. strict_neq (get_prop cur k) (get_prop p k)}"
proof -
  have "dom (map_of (fst (for_in p sd ks (cur, sr)))) =
     dom (map_of cur) \<union> {k \<in> set ks. strict_neq (get_prop cur k) (get_prop p k)}"
    by (auto simp: for_in_map_of dom_def)
  then show ?thesis
    by (simp add: keys_in_def dom_map_of_conv_image_fst)
qed

lemma for_in_ext_eq: "for_in_ext p sd ks acc = for_in p sd ks acc"
  by (induction p sd ks acc rule: for_in.induct) simp_all

text \<open>
  The two hooks build the same dependency object, unless the initial state owns a key
  \<^verbatim>\<open>__proto__\<close>: the object literal of the one defines it, the assignment of the other
  does not.
\<close>

lemma init_deps_foldl:
  "''__proto__'' \<notin> set ks \<Longrightarrow>
   init_deps ks acc = foldl (\<lambda>prev curr. set_prop prev curr (Bool False)) acc ks"
  by (induction ks arbitrary: acc) auto

lemma useStateWithDeps_ext_cells:
  "stateRef_ext (useStateWithDeps_ext init) = stateRef (useStateWithDeps init)"
  "''__proto__'' \<notin> set (keys_in init) \<Longrightarrow>
   stateDependenciesRef_ext (useStateWithDeps_ext init)
     = stateDependenciesRef (useStateWithDeps init)"
  "rerender_ext (useStateWithDeps_ext init) = rerender (useStateWithDeps init)"
  by (simp_all add: useStateWithDeps_ext_def useStateWithDeps_def init_deps_foldl)

lemma init_deps_proto_key:
  "stateDependenciesRef_ext (useStateWithDeps_ext [(''__proto__'', Num 1)]) = []
   \<and> stateDependenciesRef (useStateWithDeps [(''__proto__'', Num 1)])
       = [(''__proto__'', Bool False)]"
  by (simp add: useStateWithDeps_ext_def useStateWithDeps_def keys_in_def)

section \<open>The cells after each operation\<close>

lemma stateRef_setState:
  "stateRef (setState c p) =
     fst (for_in p (stateDependenciesRef c) (keys_in p) (stateRef c, False))"
  by (simp add: setState_def split: prod.splits)

lemma rerender_setState:
  "rerender (setState c p) =
     (if snd (for_in p (stateDependenciesRef c) (keys_in p) (stateRef c, False))
         \<and> \<not> unmounted c
      then Suc (rerender c) else rerender c)"
  by (simp add: setState_def split: prod.splits)

lemma deps_setState: "stateDependenciesRef (setState c p) = stateDependenciesRef c"
  by (simp add: setState_def split: prod.splits)

lemma unmounted_setState: "unmounted (setState c p) = unmounted c"
  by (simp add: setState_def split: prod.splits)

lemma stateRef_setState_ext:
  "stateRef_ext (setState_ext u c p) =
     fst (for_in p (stateDependenciesRef_ext c) (keys_in p) (stateRef_ext c, False))"
  by (simp add: setState_ext_def for_in_ext_eq split: prod.splits)

lemma rerender_setState_ext:
  "rerender_ext (setState_ext u c p) =
     (if snd (for_in p (stateDependenciesRef_ext c) (keys_in p) (stateRef_ext c, False))
         \<and> \<not> u
      then Suc (rerender_ext c) else rerender_ext c)"
  by (simp add: setState_ext_def for_in_ext_eq split: prod.splits)

lemma deps_setState_ext:
  "stateDependenciesRef_ext (setState_ext u c p) = stateDependenciesRef_ext c"
  by (simp add: setState_ext_def split: prod.splits)

lemma getter_simps:
  "fst (getter c f) = get_prop (stateRef c) f"
  "stateRef (snd (getter c f)) = stateRef c"
  "stateDependenciesRef (snd (getter c f)) = set_prop (stateDependenciesRef c) f (Bool True)"
  "unmounted (snd (getter c f)) = unmounted c"
  "rerender (snd (getter c f)) = rerender c"
  by (simp_all add: getter_def Let_def)

lemma unmount_simps:
  "stateRef (unmount c) = stateRef c"
  "stateDependenciesRef (unmount c) = stateDependenciesRef c"
  "unmounted (unmount c)"
  "rerender (unmount c) = rerender c"
  by (simp_all add: unmount_def)

lemma useStateWithDeps_simps:
  "stateRef (useStateWithDeps init) = init"
  "set (keys_in (stateDependenciesRef (useStateWithDeps init))) = set (keys_in init)"
  "unmounted (useStateWithDeps init) = False"
  "rerender (useStateWithDeps init) = 0"
  by (simp_all add: useStateWithDeps_def keys_foldl_set_prop) (simp add: keys_in_def)









text \<open>What the sample container holds.\<close>

lemma demo_tracked_cells:
  "stateRef demo_tracked = [(''data'', Ref 0), (''length'', Num 1)]"
  "stateDependenciesRef demo_tracked = [(''data'', Bool False), (''length'', Bool True)]"
  "unmounted demo_tracked = False"
  "rerender demo_tracked = 0"
  by (simp_all add: demo_tracked_def demo_init_def useStateWithDeps_def getter_def keys_in_def)

text \<open>Reading own and absent keys of concrete objects.\<close>

lemma get_prop_Cons:
  "get_prop ((k', v) # ob) k = (if k = k' then v else get_prop ob k)"
  by (simp add: get_prop_def)

lemma get_prop_Nil: "get_prop [] k = inherited k"
  by (simp add: get_prop_def)

section \<open>The assignments of an ordinary record\<close>

text \<open>
  On an extensible record, for a payload that does not own a key \<^verbatim>\<open>__proto__\<close>, every
  assignment of the loop stores, and the call returns what \<open>setState\<close> gives.
\<close>

lemma assign_plain:
  "k \<noteq> ''__proto__'' \<or> k \<in> set (keys_in ob) \<Longrightarrow>
   assign Extensible ob k v = Inr (set_prop ob k v)"
  by (auto simp: assign_def)

lemma for_in_strict_plain:
  "''__proto__'' \<notin> set ks \<Longrightarrow>
   for_in_strict Extensible p sd ks acc = Inr (for_in p sd ks acc)"
proof (induction p sd ks acc rule: for_in.induct)
  case (1 payload sd currentState shouldRerender)
  then show ?case by simp
next
  case (2 payload sd k ks currentState shouldRerender)
  then have k: "k \<noteq> ''__proto__''" and ks: "''__proto__'' \<notin> set ks"
    by auto
  show ?case
    using 2 ks by (simp add: assign_plain [of k] k)
qed

lemma setState_strict_plain:
  "''__proto__'' \<notin> set (keys_in payload) \<Longrightarrow>
   setState_strict Extensible c payload = Inr (setState c payload)"
  by (simp add: setState_strict_def setState_def for_in_strict_plain split: prod.splits)

lemma stateRef_setState_map_of:
  "map_of (stateRef (setState c payload)) k =
     (if k \<in> set (keys_in payload)
         \<and> strict_neq (get_prop (stateRef c) k) (get_prop payload k)
      then Some (get_prop payload k) else map_of (stateRef c) k)"
  by (simp add: stateRef_setState for_in_map_of)

text \<open>
  A payload \<^verbatim>\<open>{ "__proto__": 1 }\<close>, as \<^verbatim>\<open>JSON.parse\<close> makes it: the setter ignores the
  number, the record stays as it is, and since the dependency object yields its
  prototype for that key, each such write signals.
\<close>

lemma proto_write_ignored:
  "setState_strict Extensible demo_tracked [(''__proto__'', Num 1)]
     = Inr (demo_tracked\<lparr> rerender := 1 \<rparr>)
   \<and> setState_strict Extensible (demo_tracked\<lparr> rerender := 1 \<rparr>) [(''__proto__'', Num 1)]
     = Inr (demo_tracked\<lparr> rerender := 2 \<rparr>)"
  by (simp add: setState_strict_def assign_def demo_tracked_cells keys_in_def get_prop_Cons
        get_prop_Nil inherited_def object_prototype_def strict_neq_def)

text \<open>The unmounted flag bears on the signal only, whatever the record and the payload.\<close>

lemma setState_strict_unmounted:
  "thrown (setState_strict g (c\<lparr> unmounted := b \<rparr>) payload)
     = thrown (setState_strict g c payload)
   \<and> stateRef (settled (setState_strict g (c\<lparr> unmounted := b \<rparr>) payload))
     = stateRef (settled (setState_strict g c payload))
   \<and> stateDependenciesRef (settled (setState_strict g c payload)) = stateDependenciesRef c
   \<and> (unmounted c \<longrightarrow> rerender (settled (setState_strict g c payload)) = rerender c)"
  by (simp add: setState_strict_def split: sum.splits prod.splits)

section \<open>Signalling of a write\<close>


lemma rerender_setState_ext_iff:
  "rerender_ext (setState_ext u ce payload) =
     rerender_ext ce +
     (if \<not> u \<and>
         (\<exists>k\<in>set (keys_in payload).
            truthy (get_prop (stateDependenciesRef_ext ce) k) \<and>
            strict_neq (get_prop (stateRef_ext ce) k) (get_prop payload k))
      then 1 else 0)"
  by (simp add: rerender_setState_ext for_in_flag)





section \<open>Writes after the unmount\<close>

lemma unmounted_step_same:
  assumes "stateRef c1 = stateRef c2"
    and "stateDependenciesRef c1 = stateDependenciesRef c2"
    and "unmounted c1"
  shows "stateRef (step c1 x) = stateRef (step c2 x)
       \<and> stateDependenciesRef (step c1 x) = stateDependenciesRef (step c2 x)
       \<and> unmounted (step c1 x) \<and> rerender (step c1 x) = rerender c1"
  using assms
  by (cases x)
     (simp_all add: getter_simps unmount_simps deps_setState stateRef_setState
        rerender_setState unmounted_setState)

lemma unmounted_run_same:
  "stateRef c1 = stateRef c2 \<Longrightarrow>
   stateDependenciesRef c1 = stateDependenciesRef c2 \<Longrightarrow> unmounted c1 \<Longrightarrow>
   stateRef (run c1 xs) = stateRef (run c2 xs)
     \<and> stateDependenciesRef (run c1 xs) = stateDependenciesRef (run c2 xs)
     \<and> unmounted (run c1 xs) \<and> rerender (run c1 xs) = rerender c1"
proof (induction xs arbitrary: c1 c2)
  case Nil
  then show ?case by simp
next
  case (Cons x xs)
  have s: "stateRef (step c1 x) = stateRef (step c2 x)
       \<and> stateDependenciesRef (step c1 x) = stateDependenciesRef (step c2 x)
       \<and> unmounted (step c1 x) \<and> rerender (step c1 x) = rerender c1"
    using Cons.prems by (rule unmounted_step_same)
  then show ?case
    using Cons.IH [of "step c1 x" "step c2 x"] by simp
qed

text \<open>
  Claim C2.  Once the unmount cleanup has run, whatever is called afterwards, the flag
  stays set and \<^verbatim>\<open>rerender\<close> is never called again, while the state record becomes what
  the same calls make of it on a mounted hook.  A write on an unmounted hook, whatever the
  record and the payload, throws or not as on the mounted hook and leaves the same
  record, and the signal count stays.  On an extensible record and for a payload without
  a key \<^verbatim>\<open>__proto__\<close> the write returns, and it has stored every payload value that is
  \<^verbatim>\<open>!==\<close> to the value the record yielded for its key and left every other property.
\<close>

theorem no_signal_after_unmount:
  "unmounted (run (unmount c) calls)
   \<and> rerender (run (unmount c) calls) = rerender c
   \<and> stateRef (run (unmount c) calls) = stateRef (run c calls)
   \<and> stateDependenciesRef (run (unmount c) calls) = stateDependenciesRef (run c calls)
   \<and> (unmounted c' \<longrightarrow>
        thrown (setState_strict g c' payload)
          = thrown (setState_strict g (c'\<lparr> unmounted := False \<rparr>) payload)
        \<and> stateRef (settled (setState_strict g c' payload))
          = stateRef (settled (setState_strict g (c'\<lparr> unmounted := False \<rparr>) payload))
        \<and> rerender (settled (setState_strict g c' payload)) = rerender c')
   \<and> (unmounted c' \<and> ''__proto__'' \<notin> set (keys_in payload) \<longrightarrow>
        setState_strict Extensible c' payload = Inr (setState c' payload)
        \<and> unmounted (setState c' payload)
        \<and> rerender (setState c' payload) = rerender c'
        \<and> stateDependenciesRef (setState c' payload) = stateDependenciesRef c'
        \<and> map_of (stateRef (setState c' payload)) k =
            (if k \<in> set (keys_in payload)
                \<and> strict_neq (get_prop (stateRef c') k) (get_prop payload k)
             then Some (get_prop payload k) else map_of (stateRef c') k)
        \<and> stateRef (setState c' payload)
            = stateRef (setState (c'\<lparr> unmounted := False \<rparr>) payload))"
proof -
  have a: "unmounted (run (unmount c) calls)
   \<and> rerender (run (unmount c) calls) = rerender c
   \<and> stateRef (run (unmount c) calls) = stateRef (run c calls)
   \<and> stateDependenciesRef (run (unmount c) calls) = stateDependenciesRef (run c calls)"
    using unmounted_run_same [of "unmount c" c calls] by (simp add: unmount_simps)
  have b: "setState_strict Extensible c' payload = Inr (setState c' payload)"
    if "''__proto__'' \<notin> set (keys_in payload)"
    using that by (rule setState_strict_plain)
  have d: "rerender (setState c' payload) = rerender c'" if "unmounted c'"
    using that by (simp add: rerender_setState)
  have e: "stateRef (setState c' payload)
            = stateRef (setState (c'\<lparr> unmounted := False \<rparr>) payload)"
    by (simp add: stateRef_setState)
  have f: "thrown (setState_strict g c' payload)
          = thrown (setState_strict g (c'\<lparr> unmounted := False \<rparr>) payload)
        \<and> stateRef (settled (setState_strict g c' payload))
          = stateRef (settled (setState_strict g (c'\<lparr> unmounted := False \<rparr>) payload))
        \<and> (unmounted c' \<longrightarrow> rerender (settled (setState_strict g c' payload)) = rerender c')"
    using setState_strict_unmounted [where g = g and c = c' and b = False and payload = payload]
    by simp
  show ?thesis
    using a b d e f
    by (simp add: unmounted_setState deps_setState stateRef_setState_map_of)
qed

text \<open>
  After the unmount a write to the tracked \<^verbatim>\<open>length\<close> is stored and gives no signal; on
  the mounted hook the same write gives one.
\<close>

theorem no_signal_after_unmount_witness:
  "unmounted (unmount demo_tracked)
   \<and> ''__proto__'' \<notin> set (keys_in [(''length'', Num 0), (''data'', Ref 0)])
   \<and> setState_strict Extensible (unmount demo_tracked) [(''length'', Num 0), (''data'', Ref 0)]
       = Inr \<lparr> stateRef = [(''data'', Ref 0), (''length'', Num 0)],
               stateDependenciesRef = [(''data'', Bool False), (''length'', Bool True)],
               unmounted = True, rerender = 0 \<rparr>
   \<and> rerender (setState demo_tracked [(''length'', Num 0), (''data'', Ref 0)]) = 1
   \<and> rerender (run (unmount demo_tracked)
        [Set [(''length'', Num 0)], Get ''data'', Set [(''data'', Ref 5)]]) = 0"
proof -
  have u: "unmounted (unmount demo_tracked)"
    by (simp add: unmount_simps)
  have h: "''__proto__'' \<notin> set (keys_in [(''length'', Num 0), (''data'', Ref 0)])"
    by (simp add: keys_in_def)
  have e: "setState (unmount demo_tracked) [(''length'', Num 0), (''data'', Ref 0)]
       = \<lparr> stateRef = [(''data'', Ref 0), (''length'', Num 0)],
               stateDependenciesRef = [(''data'', Bool False), (''length'', Bool True)],
               unmounted = True, rerender = 0 \<rparr>"
    by (simp add: setState_def unmount_def demo_tracked_def demo_init_def useStateWithDeps_def
          getter_def keys_in_def get_prop_Cons strict_neq_def)
  have m: "rerender (setState demo_tracked [(''length'', Num 0), (''data'', Ref 0)]) = 1"
    by (simp add: rerender_setState demo_tracked_cells keys_in_def get_prop_Cons strict_neq_def)
  show ?thesis
    using u h e m
      no_signal_after_unmount [where c = demo_tracked and c' = "unmount demo_tracked"
            and g = Extensible
            and payload = "[(''length'', Num 0), (''data'', Ref 0)]"
            and calls = "[Set [(''length'', Num 0)], Get ''data'', Set [(''data'', Ref 5)]]"]
    by (simp add: demo_tracked_cells)
qed

section \<open>Dependency flags only accumulate\<close>

lemma dep_flag_step:
  "dep_flag (stateDependenciesRef c) f \<Longrightarrow> dep_flag (stateDependenciesRef (step c x)) f"
  by (cases x) (simp_all add: getter_simps unmount_simps deps_setState dep_flag_set_prop)

text \<open>
  Claim C3.  A field whose dependency flag is true keeps it true through every later
  history of reads, writes and the unmount.
\<close>

theorem tracking_monotone:
  "dep_flag (stateDependenciesRef c) f \<Longrightarrow>
   dep_flag (stateDependenciesRef (run c calls)) f"
proof (induction calls arbitrary: c)
  case Nil
  then show ?case by simp
next
  case (Cons x xs)
  from Cons.prems have "dep_flag (stateDependenciesRef (step c x)) f"
    by (rule dep_flag_step)
  then show ?case using Cons.IH by simp
qed

theorem tracking_monotone_witness:
  "dep_flag (stateDependenciesRef (step (useStateWithDeps demo_init) (Get ''length'')))
     ''length''
   \<and> dep_flag
       (stateDependenciesRef
          (run (step (useStateWithDeps demo_init) (Get ''length''))
             [Set [(''length'', Num 0)], Get ''data'', Unmount, Set [(''length'', Num 3)]]))
       ''length''"
proof -
  have h: "dep_flag (stateDependenciesRef (step (useStateWithDeps demo_init) (Get ''length'')))
     ''length''"
    by (simp add: getter_simps dep_flag_set_prop)
  show ?thesis
    by (rule conjI [OF h tracking_monotone [OF h]])
qed

section \<open>The key sets of the two objects\<close>

lemma deps_keys_step:
  "reads_within init x \<Longrightarrow>
   set (keys_in (stateDependenciesRef c)) = set (keys_in init) \<Longrightarrow>
   set (keys_in (stateDependenciesRef (step c x))) = set (keys_in init)"
  by (cases x) (auto simp: getter_simps unmount_simps deps_setState keys_set_prop)

lemma deps_keys_run:
  "list_all (reads_within init) calls \<Longrightarrow>
   set (keys_in (stateDependenciesRef c)) = set (keys_in init) \<Longrightarrow>
   set (keys_in (stateDependenciesRef (run c calls))) = set (keys_in init)"
proof (induction calls arbitrary: c)
  case Nil
  then show ?case by simp
next
  case (Cons x xs)
  then show ?case using deps_keys_step [of init x c] by simp
qed

lemma state_keys_step:
  "writes_within init x \<Longrightarrow>
   set (keys_in (stateRef c)) = set (keys_in init) \<Longrightarrow>
   set (keys_in (stateRef (step c x))) = set (keys_in init)"
  by (cases x) (auto simp: getter_simps unmount_simps stateRef_setState for_in_keys)

lemma state_keys_run:
  "list_all (writes_within init) calls \<Longrightarrow>
   set (keys_in (stateRef c)) = set (keys_in init) \<Longrightarrow>
   set (keys_in (stateRef (run c calls))) = set (keys_in init)"
proof (induction calls arbitrary: c)
  case Nil
  then show ?case by simp
next
  case (Cons x xs)
  then show ?case using state_keys_step [of init x c] by simp
qed

text \<open>
  Claim C4, as stated, fails: a payload with a key outside the initial fields adds that
  key to the state record and not to the dependency object.  Here the state
  \<^verbatim>\<open>{ a: 1 }\<close> receives \<^verbatim>\<open>{ b: 2 }\<close>.
\<close>

theorem unknown_key_extends_state_only:
  "keys_in (stateRef (setState (useStateWithDeps [(''a'', Num 1)]) [(''b'', Num 2)]))
     = [''a'', ''b'']
   \<and> keys_in (stateDependenciesRef
        (setState (useStateWithDeps [(''a'', Num 1)]) [(''b'', Num 2)])) = [''a'']
   \<and> set (keys_in (stateRef (setState (useStateWithDeps [(''a'', Num 1)]) [(''b'', Num 2)])))
     \<noteq> set (keys_in (stateDependenciesRef
        (setState (useStateWithDeps [(''a'', Num 1)]) [(''b'', Num 2)])))"
  by (simp add: setState_def useStateWithDeps_def keys_in_def get_prop_def strict_neq_def
        inherited_def object_prototype_def)

text \<open>
  Claim C4, amended.  When every payload written has only keys of the initial state, as
  \<^verbatim>\<open>Partial<State>\<close> types it, and the getters read fields of the initial state, then
  after every history of calls the state record and the dependency object both have
  exactly the keys of the initial state.
\<close>

theorem key_sets_fixed_within_fields:
  assumes "list_all (reads_within init) calls"
    and "list_all (writes_within init) calls"
  shows "set (keys_in (stateRef (run (useStateWithDeps init) calls))) = set (keys_in init)
       \<and> set (keys_in (stateDependenciesRef (run (useStateWithDeps init) calls)))
           = set (keys_in init)"
  using assms
  by (simp add: deps_keys_run state_keys_run useStateWithDeps_simps)

theorem key_sets_fixed_within_fields_witness:
  "list_all (reads_within demo_init)
     [Get ''length'', Set [(''length'', Num 0), (''data'', Ref 1)], Unmount]
   \<and> list_all (writes_within demo_init)
     [Get ''length'', Set [(''length'', Num 0), (''data'', Ref 1)], Unmount]
   \<and> set (keys_in (stateRef (run (useStateWithDeps demo_init)
        [Get ''length'', Set [(''length'', Num 0), (''data'', Ref 1)], Unmount])))
       = {''data'', ''length''}
   \<and> set (keys_in (stateDependenciesRef (run (useStateWithDeps demo_init)
        [Get ''length'', Set [(''length'', Num 0), (''data'', Ref 1)], Unmount])))
       = {''data'', ''length''}"
proof -
  have r: "list_all (reads_within demo_init)
     [Get ''length'', Set [(''length'', Num 0), (''data'', Ref 1)], Unmount]"
    by (simp add: demo_init_def keys_in_def)
  have w: "list_all (writes_within demo_init)
     [Get ''length'', Set [(''length'', Num 0), (''data'', Ref 1)], Unmount]"
    by (simp add: demo_init_def keys_in_def)
  have k: "set (keys_in demo_init) = {''data'', ''length''}"
    by (simp add: demo_init_def keys_in_def)
  show ?thesis
    using r w key_sets_fixed_within_fields [OF r w] unfolding k by blast
qed

section \<open>What a write leaves alone\<close>

text \<open>
  Claim C5.  A call of \<open>setState\<close> leaves the dependency object as it is, and leaves as
  it is every property of the state record that is not a key of the payload, and every
  one whose payload value is not \<^verbatim>\<open>!==\<close> to the stored value.  The same holds for the hook
  with the external unmounted ref.
\<close>

theorem setState_frame:
  "stateDependenciesRef (setState c payload) = stateDependenciesRef c
   \<and> (k \<notin> set (keys_in payload) \<longrightarrow>
        map_of (stateRef (setState c payload)) k = map_of (stateRef c) k)
   \<and> (\<not> strict_neq (get_prop (stateRef c) k) (get_prop payload k) \<longrightarrow>
        map_of (stateRef (setState c payload)) k = map_of (stateRef c) k)
   \<and> stateDependenciesRef_ext (setState_ext u ce payload) = stateDependenciesRef_ext ce
   \<and> (k \<notin> set (keys_in payload) \<longrightarrow>
        map_of (stateRef_ext (setState_ext u ce payload)) k = map_of (stateRef_ext ce) k)
   \<and> (\<not> strict_neq (get_prop (stateRef_ext ce) k) (get_prop payload k) \<longrightarrow>
        map_of (stateRef_ext (setState_ext u ce payload)) k = map_of (stateRef_ext ce) k)"
  by (simp add: deps_setState stateRef_setState deps_setState_ext stateRef_setState_ext
        for_in_map_of)

text \<open>
  A write of a new \<^verbatim>\<open>length\<close> leaves \<^verbatim>\<open>data\<close>, which the payload does not name; a write
  of the stored \<^verbatim>\<open>length\<close> leaves \<^verbatim>\<open>length\<close>.
\<close>

theorem setState_frame_witness:
  "''data'' \<notin> set (keys_in [(''length'', Num 0)])
   \<and> map_of (stateRef (setState demo_tracked [(''length'', Num 0)])) ''data'' = Some (Ref 0)
   \<and> \<not> strict_neq (get_prop (stateRef demo_tracked) ''length'')
         (get_prop [(''length'', Num 1), (''data'', Ref 1)] ''length'')
   \<and> map_of (stateRef (setState demo_tracked [(''length'', Num 1), (''data'', Ref 1)]))
       ''length'' = Some (Num 1)
   \<and> stateDependenciesRef (setState demo_tracked [(''length'', Num 0)])
       = [(''data'', Bool False), (''length'', Bool True)]"
  using setState_frame
          [where c = demo_tracked and payload = "[(''length'', Num 0)]" and k = "''data''"]
        setState_frame
          [where c = demo_tracked and payload = "[(''length'', Num 1), (''data'', Ref 1)]"
             and k = "''length''"]
  by (simp add: demo_tracked_cells keys_in_def get_prop_Cons strict_neq_def)

section \<open>Tracked reads\<close>

lemma deps_run_Gets:
  "dep_flag (stateDependenciesRef (run c (map Get fs))) g =
     (g \<in> set fs \<or> dep_flag (stateDependenciesRef c) g)"
  by (induction fs arbitrary: c) (auto simp: getter_simps dep_flag_set_prop)

lemma quiet_run_Gets:
  "rerender (run c (map Get fs)) = rerender c
   \<and> stateRef (run c (map Get fs)) = stateRef c
   \<and> unmounted (run c (map Get fs)) = unmounted c"
  by (induction fs arbitrary: c) (auto simp: getter_simps)

text \<open>
  Claim C6.  A getter returns the value stored for its field, leaves the field's
  dependency flag true whatever it was, and does not call \<^verbatim>\<open>rerender\<close>.  After any list of
  reads the counter and the state record are as before, and a flag is true if and only
  if it was true before or its field is among those read, in whatever order.
\<close>

theorem getter_tracks_and_returns:
  "fst (getter c f) = get_prop (stateRef c) f
   \<and> (map_of (stateRef c) f = Some v \<longrightarrow> fst (getter c f) = v)
   \<and> dep_flag (stateDependenciesRef (snd (getter c f))) f
   \<and> rerender (snd (getter c f)) = rerender c
   \<and> stateRef (snd (getter c f)) = stateRef c
   \<and> rerender (run c (map Get fs)) = rerender c
   \<and> stateRef (run c (map Get fs)) = stateRef c
   \<and> dep_flag (stateDependenciesRef (run c (map Get fs))) g =
       (g \<in> set fs \<or> dep_flag (stateDependenciesRef c) g)"
  by (simp add: getter_simps dep_flag_set_prop deps_run_Gets quiet_run_Gets get_prop_def)

theorem getter_tracks_and_returns_witness:
  "map_of (stateRef demo_tracked) ''data'' = Some (Ref 0)
   \<and> fst (getter demo_tracked ''data'') = Ref 0
   \<and> dep_flag (stateDependenciesRef (snd (getter demo_tracked ''data''))) ''data''
   \<and> fst (getter demo_tracked ''length'') = Num 1
   \<and> dep_flag (stateDependenciesRef (snd (getter demo_tracked ''length''))) ''length''
   \<and> rerender (run demo_tracked (map Get [''length'', ''data'', ''length''])) = 0"
  using getter_tracks_and_returns
          [where c = demo_tracked and f = "''data''" and v = "Ref 0"
             and fs = "[''length'', ''data'', ''length'']"]
        getter_tracks_and_returns
          [where c = demo_tracked and f = "''length''" and fs = "[]"]
  by (simp add: demo_tracked_cells get_prop_Cons)

section \<open>Writes in call order\<close>



section \<open>Payloads with unknown keys\<close>







section \<open>The two hooks\<close>

text \<open>
  Claim C10.  On the same state record, dependency object, unmounted flag, signal count
  and payload, the \<open>setState\<close> of the hook with the external unmounted ref and the
  \<open>setState\<close> of the hook with its own ref leave the same state record, the same
  dependency object and the same signal count.
\<close>

theorem setState_variants_agree:
  "stateRef_ext
     (setState_ext u \<lparr>stateRef_ext = st, stateDependenciesRef_ext = sd, rerender_ext = n\<rparr> p)
   = stateRef
     (setState \<lparr>stateRef = st, stateDependenciesRef = sd, unmounted = u, rerender = n\<rparr> p)
  \<and> stateDependenciesRef_ext
     (setState_ext u \<lparr>stateRef_ext = st, stateDependenciesRef_ext = sd, rerender_ext = n\<rparr> p)
   = stateDependenciesRef
     (setState \<lparr>stateRef = st, stateDependenciesRef = sd, unmounted = u, rerender = n\<rparr> p)
  \<and> rerender_ext
     (setState_ext u \<lparr>stateRef_ext = st, stateDependenciesRef_ext = sd, rerender_ext = n\<rparr> p)
   = rerender
     (setState \<lparr>stateRef = st, stateDependenciesRef = sd, unmounted = u, rerender = n\<rparr> p)"
  by (simp add: stateRef_setState stateRef_setState_ext deps_setState deps_setState_ext
        rerender_setState rerender_setState_ext)

theorem setState_variants_agree_witness:
  "stateRef_ext
     (setState_ext False
        \<lparr>stateRef_ext = [(''data'', Ref 0), (''length'', Num 1)],
         stateDependenciesRef_ext = [(''data'', Bool False), (''length'', Bool True)],
         rerender_ext = 0\<rparr>
        [(''data'', Ref 2), (''length'', Num 0)])
     = [(''data'', Ref 2), (''length'', Num 0)]
   \<and> rerender_ext
     (setState_ext False
        \<lparr>stateRef_ext = [(''data'', Ref 0), (''length'', Num 1)],
         stateDependenciesRef_ext = [(''data'', Bool False), (''length'', Bool True)],
         rerender_ext = 0\<rparr>
        [(''data'', Ref 2), (''length'', Num 0)])
     = 1"
  using setState_variants_agree
          [where u = False and st = "[(''data'', Ref 0), (''length'', Num 1)]"
             and sd = "[(''data'', Bool False), (''length'', Bool True)]" and n = 0
             and p = "[(''data'', Ref 2), (''length'', Num 0)]"]
  by (simp add: stateRef_setState rerender_setState keys_in_def get_prop_Cons strict_neq_def)

end
